theory Spec2Isabelle
  imports Main "HOL-Library.Word"
begin

section \<open>The iterator core of package \<open>graph/iterator\<close>\<close>

text \<open>
  The development embeds \<^verbatim>\<open>graph/iterator/iterator.go\<close>: the process-wide UID counter, the
  \<open>Base\<close> struct with its default methods, and the \<open>Null\<close> iterator that embeds \<open>Base\<close>.
  Go structs are records, embedding is record extension (a method of \<open>Base\<close> is a function
  on every extension of the \<open>Base\<close> record, which is how Go promotes it to \<open>Null\<close>), and
  \<open>*Null\<close> pointers are addresses into an explicit heap.
\<close>

subsection \<open>Data contracts of package \<open>graph\<close>\<close>

text \<open>
  Modelled from the spec: \<open>graph.Value\<close>, declared in package \<open>graph\<close>, which is not among the
  sources. It is an opaque, comparable token; \<open>Next\<close> returns the Go \<open>nil\<close> for it, so the
  type has \<open>nil\<close> (\<open>VNil\<close>) beside the proper values.
\<close>

datatype 'v Value = VNil | V 'v

text \<open>
  Modelled from the spec: \<open>graph.IteratorStats\<close>, the cost triple of size estimate, cost of
  one \<open>Next\<close> and cost of one \<open>Check\<close>. The source builds it from three integer literals and
  as the zero struct; the fields are signed 64-bit integers (\<open>sint\<close> reads one).
\<close>

type_synonym int64 = "64 word"
type_synonym uint64 = "64 word"

record IteratorStats =
  Size :: int64
  NextCost :: int64
  CheckCost :: int64



text \<open>
  Modelled from the spec: \<open>graph.Tagger\<close>, the tag registry. \<open>Tags()\<close> is the sequence of
  dynamic tag names (the source ranges over it with an index and a string), \<open>Fixed()\<close> the Go
  map from a fixed tag name to its value (the source ranges over it with key and value).
  \<open>Add\<close> and \<open>AddFixed\<close> register a dynamic and a fixed tag.
\<close>

record 'v Tagger =
  dynamicTags :: "string list"
  fixedTags :: "string \<rightharpoonup> 'v Value"

definition Tagger_zero :: "'v Tagger" where
  "Tagger_zero = \<lparr>dynamicTags = [], fixedTags = Map.empty\<rparr>"

definition Tagger_Add :: "string \<Rightarrow> 'v Tagger \<Rightarrow> 'v Tagger" where
  "Tagger_Add tag t = t\<lparr>dynamicTags := dynamicTags t @ [tag]\<rparr>"

definition Tagger_AddFixed :: "string \<Rightarrow> 'v Value \<Rightarrow> 'v Tagger \<Rightarrow> 'v Tagger" where
  "Tagger_AddFixed tag val t = t\<lparr>fixedTags := (fixedTags t)(tag \<mapsto> val)\<rparr>"

definition Tagger_Tags :: "'v Tagger \<Rightarrow> string list" where
  "Tagger_Tags t = dynamicTags t"

definition Tagger_Fixed :: "'v Tagger \<Rightarrow> (string \<rightharpoonup> 'v Value)" where
  "Tagger_Fixed t = fixedTags t"

subsection \<open>The structs \<open>Base\<close> and \<open>Null\<close>\<close>

record 'v Base =
  Last :: "'v Value"
  canNext :: bool

record 'v Null = "'v Base" +
  uid :: uint64
  tags :: "'v Tagger"

text \<open>
  The program state: the package variable \<open>nextIteratorID\<close> and the \<open>Null\<close> objects allocated
  so far. A \<open>*Null\<close> is the index of its object; allocation appends, so a new address is
  different from every address in use.
\<close>

type_synonym ref = nat

record 'v world =
  nextIteratorID :: uint64
  heap :: "'v Null list"

text \<open>The state at process start: the counter has Go's zero value, nothing is allocated.\<close>

definition world_init :: "'v world" where
  "world_init = \<lparr>nextIteratorID = 0, heap = []\<rparr>"

definition deref :: "'v world \<Rightarrow> ref \<Rightarrow> 'v Null option" where
  "deref w p = (if p < length (heap w) then Some (heap w ! p) else None)"

text \<open>An assignment through a pointer: \<open>*p = f(*p)\<close>.\<close>

definition store :: "ref \<Rightarrow> ('v Null \<Rightarrow> 'v Null) \<Rightarrow> 'v world \<Rightarrow> 'v world" where
  "store p f w = (if p < length (heap w) then w\<lparr>heap := (heap w)[p := f (heap w ! p)]\<rparr> else w)"

text \<open>
  A call \<open>p.m()\<close> of a method with a pointer receiver: the method body runs on the object
  that \<open>p\<close> points to and the object it leaves behind is written back. A receiver that
  points to no object is a nil dereference (\<open>None\<close>).
\<close>

definition invoke :: "ref \<Rightarrow> ('v Null \<Rightarrow> 'r \<times> 'v Null) \<Rightarrow> 'v world \<Rightarrow> ('r \<times> 'v world) option" where
  "invoke p m w =
     (case deref w p of
        None \<Rightarrow> None
      | Some it \<Rightarrow> (case m it of (r, it') \<Rightarrow> Some (r, store p (\<lambda>_. it') w)))"

subsection \<open>UID generation\<close>

text \<open>
  \<^verbatim>\<open>atomic.AddUint64(&nextIteratorID, 1) - 1\<close>: the counter is incremented in one indivisible
  step that yields the new value; both the addition and the subtraction are on \<open>uint64\<close>.
\<close>

definition NextUID :: "'v world \<Rightarrow> uint64 \<times> 'v world" where
  "NextUID w =
     (let new = nextIteratorID w + 1
      in (new - 1, w\<lparr>nextIteratorID := new\<rparr>))"

text \<open>\<open>n\<close> calls of \<open>NextUID\<close> one after the other, with the identifiers in the order issued.\<close>

fun NextUIDs :: "nat \<Rightarrow> 'v world \<Rightarrow> uint64 list \<times> 'v world" where
  "NextUIDs 0 w = ([], w)"
| "NextUIDs (Suc n) w =
     (case NextUID w of (u, w') \<Rightarrow>
        (case NextUIDs n w' of (us, w'') \<Rightarrow> (u # us, w'')))"

text \<open>
  \<open>n\<close> calls of one operation \<open>m\<close> one after the other on a state, with the results in
  the order returned; a call that fails ends the run.
\<close>

fun calls :: "nat \<Rightarrow> ('s \<Rightarrow> ('r \<times> 's) option) \<Rightarrow> 's \<Rightarrow> ('r list \<times> 's) option" where
  "calls 0 m s = Some ([], s)"
| "calls (Suc n) m s =
     (case m s of
        None \<Rightarrow> None
      | Some (r, s') \<Rightarrow>
          (case calls n m s' of None \<Rightarrow> None | Some (rs, s'') \<Rightarrow> Some (r # rs, s'')))"

subsection \<open>Methods of \<open>Base\<close>\<close>

definition BaseInit :: "('v, 'm) Base_scheme \<Rightarrow> ('v, 'm) Base_scheme" where
  "BaseInit it = it\<lparr>canNext := True\<rparr>"

definition Base_Check :: "('v, 'm) Base_scheme \<Rightarrow> 'v Value \<Rightarrow> bool \<times> ('v, 'm) Base_scheme" where
  "Base_Check it v = (False, it)"

definition Base_Stats :: "('v, 'm) Base_scheme \<Rightarrow> IteratorStats" where
  "Base_Stats it = \<lparr>Size = 100000, NextCost = 100000, CheckCost = 100000\<rparr>"

definition Base_Next :: "('v, 'm) Base_scheme \<Rightarrow> ('v Value \<times> bool) \<times> ('v, 'm) Base_scheme" where
  "Base_Next it = ((VNil, False), it)"

definition Base_NextResult :: "('v, 'm) Base_scheme \<Rightarrow> bool \<times> ('v, 'm) Base_scheme" where
  "Base_NextResult it = (False, it)"

definition Base_Result :: "('v, 'm) Base_scheme \<Rightarrow> 'v Value" where
  "Base_Result it = Last it"

definition Base_Size :: "('v, 'm) Base_scheme \<Rightarrow> int64 \<times> bool" where
  "Base_Size it = (0, True)"

definition Base_CanNext :: "('v, 'm) Base_scheme \<Rightarrow> bool" where
  "Base_CanNext it = canNext it"

definition Base_Reset :: "('v, 'm) Base_scheme \<Rightarrow> ('v, 'm) Base_scheme" where
  "Base_Reset it = it"

subsection \<open>The \<open>Null\<close> iterator\<close>

definition Null_Close :: "'v Null \<Rightarrow> 'v Null" where
  "Null_Close it = it"

text \<open>
  \<^verbatim>\<open>&Null{uid: NextUID()}\<close>: a new object whose other fields have their zero values, and
  its address.
\<close>

definition NewNull :: "'v world \<Rightarrow> ref \<times> 'v world" where
  "NewNull w =
     (case NextUID w of (u, w') \<Rightarrow>
        (length (heap w'),
         w'\<lparr>heap := heap w' @ [\<lparr>Last = VNil, canNext = False, uid = u, tags = Tagger_zero\<rparr>]\<rparr>))"


text \<open>
  \<open>Tagger()\<close> returns \<^verbatim>\<open>&it.tags\<close>; a caller registers tags through that pointer.
  \<open>via_Tagger p g\<close> is \<open>g\<close> applied through \<open>p.Tagger()\<close>.
\<close>

definition via_Tagger :: "ref \<Rightarrow> ('v Tagger \<Rightarrow> 'v Tagger) \<Rightarrow> 'v world \<Rightarrow> 'v world" where
  "via_Tagger p g w = store p (\<lambda>it. it\<lparr>tags := g (tags it)\<rparr>) w"

text \<open>
  \<open>TagResults\<close> writes into the caller's map, which is passed in and returned; it is a
  map the caller has made (an assignment into a nil Go map panics). The first
  loop runs over the slice of dynamic tags in order. The second ranges over a Go map: its
  keys are distinct, so in whatever order Go visits them the assignments amount to
  overriding \<open>dst\<close> with the map (\<open>range_assign_map_of\<close> below).
\<close>

definition Null_TagResults :: "'v Null \<Rightarrow> (string \<rightharpoonup> 'v Value) \<Rightarrow> (string \<rightharpoonup> 'v Value)" where
  "Null_TagResults it dst =
     (let dst1 = fold (\<lambda>tag d. d(tag \<mapsto> Base_Result it)) (Tagger_Tags (tags it)) dst
      in dst1 ++ Tagger_Fixed (tags it))"

definition Null_Clone :: "ref \<Rightarrow> 'v world \<Rightarrow> ref \<times> 'v world" where
  "Null_Clone p w = NewNull w"


definition Null_Optimize :: "ref \<Rightarrow> 'v world \<Rightarrow> (ref \<times> bool) \<times> 'v world" where
  "Null_Optimize p w = ((p, False), w)"

definition Null_Stats :: "'v Null \<Rightarrow> IteratorStats" where
  "Null_Stats it = \<lparr>Size = 0, NextCost = 0, CheckCost = 0\<rparr>"

subsection \<open>States of the program\<close>

text \<open>
  Every UID in use was issued by the counter and the counter has not wrapped around
  since: each allocated iterator's UID is below the counter.
\<close>

definition uids_issued :: "'v world \<Rightarrow> bool" where
  "uids_issued w = list_all (\<lambda>it. uid it < nextIteratorID w) (heap w)"

text \<open>The state after the first \<open>NewNull()\<close> of a process.\<close>

definition world_one :: "string world" where
  "world_one = snd (NewNull world_init)"

text \<open>
  The state after \<^verbatim>\<open>it := NewNull(); it.Tagger().AddFixed("x", "v1"); it.Tagger().Add("y");
  it.Last = "v2"\<close>.
\<close>

definition world_tagged :: "string world" where
  "world_tagged =
     store 0 (\<lambda>it. it\<lparr>Last := V ''v2''\<rparr>)
       (via_Tagger 0 (Tagger_Add ''y'')
         (via_Tagger 0 (Tagger_AddFixed ''x'' (V ''v1'')) world_one))"

text \<open>
  The state in which the counter is back at 0 while the iterator with UID 0 is alive
  (\<open>world_wrapped_reached\<close> below: it is the state after the first \<open>NewNull()\<close> and
  \<open>2 ^ 64 - 1\<close> further calls of \<open>NextUID\<close>).
\<close>

definition world_wrapped :: "string world" where
  "world_wrapped =
     \<lparr>nextIteratorID = 0,
      heap = [\<lparr>Last = VNil, canNext = False, uid = 0, tags = Tagger_zero\<rparr>]\<rparr>"

section \<open>Properties\<close>

subsection \<open>Pointers, calls and the heap\<close>

lemma deref_Some: "p < length (heap w) \<Longrightarrow> deref w p = Some (heap w ! p)"
  by (simp add: deref_def)

lemma store_same: "store p (\<lambda>_. heap w ! p) w = w"
  by (simp add: store_def)

lemma deref_store_other: "p \<noteq> q \<Longrightarrow> deref (store q f w) p = deref w p"
  by (simp add: deref_def store_def)

text \<open>A method that leaves its receiver as it found it leaves the whole state.\<close>

lemma invoke_unchanged:
  "p < length (heap w) \<Longrightarrow> m (heap w ! p) = (r, heap w ! p) \<Longrightarrow> invoke p m w = Some (r, w)"
  by (simp add: invoke_def deref_Some store_same)

lemma calls_unchanged:
  "(\<And>s. m s = Some (r, s)) \<Longrightarrow> calls n m s = Some (replicate n r, s)"
  by (induction n) simp_all

lemma calls_invoke_unchanged:
  assumes "p < length (heap w)" and "\<And>it. m it = (r, it)"
  shows "calls n (invoke p m) w = Some (replicate n r, w)"
proof (induction n)
  case 0
  show ?case by simp
next
  case (Suc n)
  from assms have "invoke p m w = Some (r, w)"
    by (simp add: invoke_unchanged)
  with Suc.IH show ?case by simp
qed

subsection \<open>The counter\<close>

lemma NextUID_eq: "NextUID w = (nextIteratorID w, w\<lparr>nextIteratorID := nextIteratorID w + 1\<rparr>)"
  by (simp add: NextUID_def Let_def)

text \<open>The \<open>k\<close>-th of \<open>n\<close> successive calls returns the counter plus \<open>k\<close>, modulo \<open>2 ^ 64\<close>.\<close>

lemma NextUIDs_eq:
  "NextUIDs n w =
     (map (\<lambda>k. nextIteratorID w + of_nat k) [0..<n],
      w\<lparr>nextIteratorID := nextIteratorID w + of_nat n\<rparr>)"
proof (induction n arbitrary: w)
  case 0
  show ?case by simp
next
  case (Suc n)
  have "map (\<lambda>k. nextIteratorID w + of_nat k) [0..<Suc n] =
        nextIteratorID w # map (\<lambda>k. nextIteratorID w + 1 + of_nat k) [0..<n]"
    by (simp add: upt_conv_Cons map_Suc_upt [symmetric] del: upt_Suc add: ac_simps)
  then show ?case
    by (simp add: Suc.IH NextUID_eq ac_simps del: upt_Suc)
qed

lemma of_nat_64_inj:
  "i < 2 ^ 64 \<Longrightarrow> j < 2 ^ 64 \<Longrightarrow> (of_nat i :: 64 word) = of_nat j \<Longrightarrow> i = j"
  by (simp add: word_of_nat_eq_iff take_bit_nat_eq_self)

lemma unat_uid_offset:
  "unat c + k < 2 ^ 64 \<Longrightarrow> unat (c + of_nat k :: 64 word) = unat c + k"
  by (simp add: unat_word_ariths unat_of_nat)

lemma NextUIDs_distinct:
  assumes "n \<le> 2 ^ 64"
  shows "distinct (fst (NextUIDs n w))"
proof -
  have "inj_on (\<lambda>k. nextIteratorID w + (of_nat k :: 64 word)) {0..<n}"
  proof (rule inj_onI)
    fix i j
    assume "i \<in> {0..<n}" "j \<in> {0..<n}"
      and "nextIteratorID w + (of_nat i :: 64 word) = nextIteratorID w + of_nat j"
    with assms have "i < 2 ^ 64" "j < 2 ^ 64" "(of_nat i :: 64 word) = of_nat j"
      by auto
    then show "i = j" by (rule of_nat_64_inj)
  qed
  then show ?thesis
    by (simp add: NextUIDs_eq distinct_map)
qed

lemma NextUIDs_increasing:
  assumes "unat (nextIteratorID w) + n \<le> 2 ^ 64"
  shows "sorted_wrt (<) (fst (NextUIDs n w))"
  using assms
  by (auto simp: NextUIDs_eq sorted_wrt_map sorted_wrt_iff_nth_less word_less_nat_alt
      unat_uid_offset)

lemma word_less_succ:
  fixes u c :: "64 word"
  assumes "u < c" and "c \<noteq> - 1"
  shows "u < c + 1"
proof -
  from assms(2) have "c < c + 1"
    by (simp add: inc_less_eq_self_iff_eq flip: not_le)
  with assms(1) show ?thesis by (rule less_trans)
qed

subsection \<open>Allocation and the UIDs in use\<close>

lemma NewNull_eq:
  "NewNull w =
     (length (heap w),
      \<lparr>nextIteratorID = nextIteratorID w + 1,
       heap = heap w @
         [\<lparr>Last = VNil, canNext = False, uid = nextIteratorID w, tags = Tagger_zero\<rparr>]\<rparr>)"
  by (simp add: NewNull_def NextUID_eq)

lemma world_one_eq:
  "world_one =
     \<lparr>nextIteratorID = 1,
      heap = [\<lparr>Last = VNil, canNext = False, uid = 0, tags = Tagger_zero\<rparr>]\<rparr>"
  by (simp add: world_one_def NewNull_eq world_init_def)

lemma world_tagged_eq:
  "world_tagged =
     \<lparr>nextIteratorID = 1,
      heap = [\<lparr>Last = V ''v2'', canNext = False, uid = 0,
               tags = \<lparr>dynamicTags = [''y''], fixedTags = [''x'' \<mapsto> V ''v1'']\<rparr>\<rparr>]\<rparr>"
  by (simp add: world_tagged_def world_one_eq via_Tagger_def store_def Tagger_Add_def
      Tagger_AddFixed_def Tagger_zero_def)

text \<open>
  The invariant holds at process start and is kept by \<open>NewNull\<close> until the counter is at
  its maximum, and by every assignment that leaves the \<open>uid\<close> field alone (the field is
  not exported and nothing in the package assigns it after construction).
\<close>

lemma uids_issued_init: "uids_issued world_init"
  by (simp add: uids_issued_def world_init_def)

lemma uids_issued_NewNull:
  assumes "uids_issued w" and "nextIteratorID w \<noteq> - 1"
  shows "uids_issued (snd (NewNull w))"
proof -
  from assms(2) have "nextIteratorID w < nextIteratorID w + 1"
    by (simp add: inc_less_eq_self_iff_eq flip: not_le)
  moreover from assms have "list_all (\<lambda>it. uid it < nextIteratorID w + 1) (heap w)"
    by (auto simp: uids_issued_def list_all_iff intro: word_less_succ)
  ultimately show ?thesis
    by (simp add: uids_issued_def NewNull_eq)
qed

lemma uids_issued_store:
  assumes "uids_issued w" and "\<And>it. uid (f it) = uid it"
  shows "uids_issued (store p f w)"
  using assms
  by (auto simp: uids_issued_def store_def list_all_length nth_list_update)

lemma uids_issued_via_Tagger: "uids_issued w \<Longrightarrow> uids_issued (via_Tagger p g w)"
  by (simp add: via_Tagger_def uids_issued_store)


lemma uids_issued_world_tagged: "uids_issued world_tagged"
  by (simp add: world_tagged_eq uids_issued_def)

lemma world_wrapped_reached:
  "snd (NextUIDs (2 ^ 64 - 1) (snd (NewNull world_init))) = world_wrapped"
  by (simp add: NextUIDs_eq NewNull_eq world_init_def world_wrapped_def)

subsection \<open>The two loops of \<open>TagResults\<close>\<close>

lemma fold_assign:
  "fold (\<lambda>tag d. d(tag \<mapsto> r)) ts dst k = (if k \<in> set ts then Some r else dst k)"
  by (induction ts arbitrary: dst) auto

text \<open>
  Ranging over a Go map visits its entries in an order that is not specified. Whatever
  the order \<open>kvs\<close>, the assignments leave \<open>dst\<close> overridden by the map.
\<close>

lemma range_assign_lookup:
  "distinct (map fst kvs) \<Longrightarrow>
   fold (\<lambda>(tag, val) d. d(tag \<mapsto> val)) kvs dst k =
     (case map_of kvs k of None \<Rightarrow> dst k | Some val \<Rightarrow> Some val)"
proof (induction kvs arbitrary: dst)
  case Nil
  show ?case by simp
next
  case (Cons kv kvs)
  obtain k' v where kv: "kv = (k', v)" by (cases kv)
  from Cons.prems kv have "map_of kvs k' = None" and "distinct (map fst kvs)"
    by (auto simp: map_of_eq_None_iff)
  then have "fold (\<lambda>(tag, val) d. d(tag \<mapsto> val)) kvs (dst(k' \<mapsto> v)) k =
      (case map_of kvs k of None \<Rightarrow> (dst(k' \<mapsto> v)) k | Some val \<Rightarrow> Some val)"
    by (simp only: Cons.IH)
  with \<open>map_of kvs k' = None\<close> show ?case
    by (simp add: kv del: fun_upd_apply) (simp split: option.split)
qed

lemma range_assign_map_of:
  "distinct (map fst kvs) \<Longrightarrow>
   fold (\<lambda>(tag, val) d. d(tag \<mapsto> val)) kvs dst = dst ++ map_of kvs"
  by (rule ext) (simp add: range_assign_lookup map_add_def)

subsection \<open>The claims\<close>

text \<open>
  C1. For a \<open>Null\<close> iterator and every value \<open>v\<close>, \<open>Check(v)\<close> returns false, \<open>Next()\<close>
  returns no value and signals exhaustion, and \<open>NextResult()\<close> returns false. Each call
  leaves the whole state as it was, so \<open>Last\<close> is not set by any of them; it is \<open>nil\<close> in
  a \<open>Null\<close> that \<open>NewNull\<close> has just made.
\<close>

theorem Null_traversal_always_fails:
  assumes "p < length (heap w)"
  shows "invoke p (\<lambda>it. Base_Check it v) w = Some (False, w) \<and>
         invoke p Base_Next w = Some ((VNil, False), w) \<and>
         invoke p Base_NextResult w = Some (False, w) \<and>
         map_option Base_Result (deref (snd (NewNull w)) (fst (NewNull w))) = Some VNil"
  using assms
  by (simp add: invoke_unchanged Base_Check_def Base_Next_def Base_NextResult_def
      NewNull_eq deref_def Base_Result_def)

theorem Null_traversal_always_fails_witness:
  "(0::nat) < length (heap world_tagged) \<and>
   invoke 0 (\<lambda>it. Base_Check it (V ''v2'')) world_tagged = Some (False, world_tagged) \<and>
   invoke 0 Base_Next world_tagged = Some ((VNil, False), world_tagged) \<and>
   invoke 0 Base_NextResult world_tagged = Some (False, world_tagged) \<and>
   map_option Base_Result (deref world_tagged 0) = Some (V ''v2'')"
proof -
  have h: "(0::nat) < length (heap world_tagged)"
    by (simp add: world_tagged_eq)
  have "map_option Base_Result (deref world_tagged 0) = Some (V ''v2'')"
    by (simp add: world_tagged_eq deref_def Base_Result_def)
  with h Null_traversal_always_fails [OF h, of "V ''v2''"] show ?thesis
    by simp
qed

text \<open>
  C2. For every \<open>Null\<close> iterator, whatever its dynamic and fixed tags, after
  \<open>TagResults(dst)\<close> a key that is a fixed tag is bound to its fixed value, a key that is
  only a dynamic tag is bound to \<open>Result()\<close>, that is to \<open>Last\<close>, and every other key is as
  it was: the fixed value wins where a key is both. With the fixed tag \<open>x\<close> bound to \<open>v1\<close>,
  the dynamic tag \<open>y\<close> and \<open>Last = v2\<close>, \<open>dst\<close> maps \<open>y\<close> to \<open>v2\<close> and \<open>x\<close> to \<open>v1\<close>; were \<open>x\<close>
  also the dynamic tag, \<open>dst\<close> would still map \<open>x\<close> to \<open>v1\<close>.
\<close>

theorem Null_TagResults_fixed_wins:
  "Null_TagResults it dst k =
     (case Tagger_Fixed (tags it) k of
        Some val \<Rightarrow> Some val
      | None \<Rightarrow> if k \<in> set (Tagger_Tags (tags it)) then Some (Base_Result it) else dst k) \<and>
   Null_TagResults
     \<lparr>Last = v2, canNext = c, uid = u,
      tags = Tagger_Add ''y'' (Tagger_AddFixed ''x'' v1 Tagger_zero)\<rparr> dst ''y'' = Some v2 \<and>
   Null_TagResults
     \<lparr>Last = v2, canNext = c, uid = u,
      tags = Tagger_Add ''y'' (Tagger_AddFixed ''x'' v1 Tagger_zero)\<rparr> dst ''x'' = Some v1 \<and>
   Null_TagResults
     \<lparr>Last = v2, canNext = c, uid = u,
      tags = Tagger_Add ''x'' (Tagger_AddFixed ''x'' v1 Tagger_zero)\<rparr> dst ''x'' = Some v1"
  by (simp add: Null_TagResults_def Let_def map_add_def fold_assign Tagger_Tags_def
      Tagger_Fixed_def Tagger_Add_def Tagger_AddFixed_def Tagger_zero_def Base_Result_def
      split: option.split)

text \<open>
  C3. A \<open>Null\<close> that \<open>NewNull()\<close> has just made has no match, and its can-advance flag is
  false, so \<open>CanNext()\<close> returns false: \<open>NewNull\<close> builds the struct without calling
  \<open>BaseInit\<close>, the only place that sets the flag.
\<close>

theorem NewNull_canNext_false:
  "map_option Base_Result (deref (snd (NewNull w)) (fst (NewNull w))) = Some VNil \<and>
   map_option Base_CanNext (deref (snd (NewNull w)) (fst (NewNull w))) = Some False \<and>
   Base_CanNext (BaseInit b) = True"
  by (simp add: NewNull_eq deref_def Base_CanNext_def Base_Result_def BaseInit_def)

text \<open>
  C4. For every \<open>Null\<close> iterator, \<open>Stats()\<close> is the cost triple whose size estimate, next
  cost and check cost are all exactly zero.
\<close>

theorem Null_Stats_zero:
  "sint (Size (Null_Stats it)) = 0 \<and> sint (NextCost (Null_Stats it)) = 0 \<and>
   sint (CheckCost (Null_Stats it)) = 0"
  by (simp add: Null_Stats_def)

text \<open>
  C5. For every \<open>Base\<close> iterator, and so for every iterator that embeds \<open>Base\<close> without
  overriding \<open>Stats\<close>, \<open>Stats()\<close> is the sentinel triple with 100000 in each of the three
  fields.
\<close>

theorem Base_Stats_sentinel:
  "sint (Size (Base_Stats it)) = 100000 \<and> sint (NextCost (Base_Stats it)) = 100000 \<and>
   sint (CheckCost (Base_Stats it)) = 100000"
  by (simp add: Base_Stats_def)

text \<open>
  C6. \<open>n\<close> calls of \<open>NextUID\<close>, in whatever order the callers' atomic increments take
  effect, return pairwise distinct identifiers as long as \<open>n\<close> is at most \<open>2 ^ 64\<close>, and
  strictly increasing ones as long as the counter does not pass \<open>2 ^ 64 - 1\<close> on the way,
  which from process start again means \<open>n\<close> at most \<open>2 ^ 64\<close>.
\<close>

theorem NextUID_distinct_until_wrap:
  "(n \<le> 2 ^ 64 \<longrightarrow> distinct (fst (NextUIDs n w))) \<and>
   (unat (nextIteratorID w) + n \<le> 2 ^ 64 \<longrightarrow> sorted_wrt (<) (fst (NextUIDs n w)))"
  by (simp add: NextUIDs_distinct NextUIDs_increasing)

theorem NextUID_distinct_until_wrap_witness:
  "(3::nat) \<le> 2 ^ 64 \<and> unat (nextIteratorID (world_init :: string world)) + 3 \<le> 2 ^ 64 \<and>
   fst (NextUIDs 3 (world_init :: string world)) = [0, 1, 2] \<and>
   distinct (fst (NextUIDs 3 (world_init :: string world))) \<and>
   sorted_wrt (<) (fst (NextUIDs 3 (world_init :: string world)))"
proof -
  have "fst (NextUIDs 3 (world_init :: string world)) = [0, 1, 2]"
    by (simp add: numeral_3_eq_3 NextUID_eq world_init_def)
  moreover have "unat (nextIteratorID (world_init :: string world)) + 3 \<le> 2 ^ 64"
    by (simp add: world_init_def)
  ultimately show ?thesis
    using NextUID_distinct_until_wrap [of 3 "world_init :: string world"] by simp
qed

text \<open>
  The claim as it stands, for every \<open>n\<close>, fails: the counter is a \<open>uint64\<close>, and from
  process start the call number \<open>2 ^ 64 + 1\<close> returns 0 again, as the first did.
\<close>

theorem NextUID_repeats_after_wrap:
  "\<not> distinct (fst (NextUIDs (2 ^ 64 + 1) (world_init :: string world)))"
proof -
  let ?f = "\<lambda>k. nextIteratorID (world_init :: string world) + (of_nat k :: 64 word)"
  have same: "?f 0 = ?f (2 ^ 64)" by simp
  have "\<not> inj_on ?f {0..<2 ^ 64 + 1}"
  proof
    assume "inj_on ?f {0..<2 ^ 64 + 1}"
    from inj_onD [OF this same] show False by simp
  qed
  then show ?thesis
    by (simp only: NextUIDs_eq fst_conv distinct_map distinct_upt set_upt simp_thms)
qed




text \<open>
  C8. For every \<open>Null\<close> iterator, in whatever state, \<open>Optimize()\<close> returns the receiver
  pointer itself as the replacement and \<open>false\<close> as the changed flag, and changes nothing.
\<close>

theorem Null_Optimize_self:
  "fst (fst (Null_Optimize p w)) = p \<and> snd (fst (Null_Optimize p w)) = False \<and>
   snd (Null_Optimize p w) = w"
  by (simp add: Null_Optimize_def)

text \<open>
  C9. On a \<open>Base\<close>, and on a \<open>Null\<close> through its pointer, any number of \<open>Next()\<close> calls one
  after the other all return exhaustion with no value, none fails, and the state is as
  it was; so once \<open>Next()\<close> has returned exhaustion every later call returns it again.
\<close>

theorem Next_exhaustion_idempotent:
  "calls n (\<lambda>b. Some (Base_Next b)) it = Some (replicate n (VNil, False), it) \<and>
   (p < length (heap w) \<longrightarrow>
      calls n (invoke p Base_Next) w = Some (replicate n (VNil, False), w))"
  by (simp add: calls_unchanged calls_invoke_unchanged Base_Next_def)

theorem Next_exhaustion_idempotent_witness:
  "(0::nat) < length (heap world_tagged) \<and>
   calls 3 (\<lambda>b. Some (Base_Next b)) \<lparr>Last = V ''v2'', canNext = True\<rparr> =
     Some ([(VNil, False), (VNil, False), (VNil, False)], \<lparr>Last = V ''v2'', canNext = True\<rparr>) \<and>
   calls 3 (invoke 0 Base_Next) world_tagged =
     Some ([(VNil, False), (VNil, False), (VNil, False)], world_tagged)"
proof -
  have h: "(0::nat) < length (heap world_tagged)"
    by (simp add: world_tagged_eq)
  with Next_exhaustion_idempotent
    [of 3 "\<lparr>Last = V ''v2'', canNext = True\<rparr>" 0 world_tagged]
  show ?thesis
    by (simp add: numeral_3_eq_3)
qed

text \<open>
  C10. For every \<open>Null\<close> iterator, the \<open>Null\<close> that \<open>Clone()\<close> returns has an empty tag
  registry, and \<open>TagResults\<close> on it leaves the destination map as it is, while the
  receiver keeps the tags registered on it.
\<close>

theorem Null_Clone_drops_tags:
  assumes "p < length (heap w)"
  shows "case Null_Clone p w of (q, w') \<Rightarrow>
     map_option tags (deref w' q) = Some Tagger_zero \<and>
     map_option (\<lambda>it. Null_TagResults it dst) (deref w' q) = Some dst \<and>
     map_option tags (deref w' p) = map_option tags (deref w p)"
  using assms
  by (simp add: Null_Clone_def NewNull_eq deref_def nth_append Null_TagResults_def
      Tagger_zero_def Tagger_Tags_def Tagger_Fixed_def)

theorem Null_Clone_drops_tags_witness:
  "(0::nat) < length (heap world_tagged) \<and>
   map_option (\<lambda>it. Null_TagResults it Map.empty ''x'') (deref world_tagged 0) =
     Some (Some (V ''v1'')) \<and>
   map_option (\<lambda>it. Null_TagResults it Map.empty ''y'') (deref world_tagged 0) =
     Some (Some (V ''v2'')) \<and>
   (case Null_Clone 0 world_tagged of (q, w') \<Rightarrow>
      map_option tags (deref w' q) = Some Tagger_zero \<and>
      map_option (\<lambda>it. Null_TagResults it Map.empty) (deref w' q) = Some Map.empty \<and>
      map_option tags (deref w' 0) = map_option tags (deref world_tagged 0))"
proof -
  have h: "(0::nat) < length (heap world_tagged)"
    by (simp add: world_tagged_eq)
  have "map_option (\<lambda>it. Null_TagResults it Map.empty ''x'') (deref world_tagged 0) =
      Some (Some (V ''v1'')) \<and>
    map_option (\<lambda>it. Null_TagResults it Map.empty ''y'') (deref world_tagged 0) =
      Some (Some (V ''v2''))"
    by (simp add: world_tagged_eq deref_def Null_TagResults_def Tagger_Tags_def
        Tagger_Fixed_def Base_Result_def)
  with h Null_Clone_drops_tags [OF h, of Map.empty] show ?thesis
    by simp
qed

end
